theory Spec2Isabelle
  imports Complex_Main "HOL-Library.AList"
begin

section \<open>GloVe word embeddings: loading, cosine similarity, top-N ranking\<close>

text \<open>
  A shallow embedding of the three functions of \<^verbatim>\<open>p3.ipynb\<close>:
  \<^verbatim>\<open>load_glove_model\<close>, \<^verbatim>\<open>cosine_similarity\<close> and \<^verbatim>\<open>find_most_similar\<close>.

  \<^item> A Python \<^verbatim>\<open>dict\<close> keeps its keys in insertion order, and \<^verbatim>\<open>find_most_similar\<close>
    iterates over it, so a dict is an association list in insertion order; a lookup is
    \<open>map_of\<close>, an assignment \<^verbatim>\<open>d[k] = v\<close> is \<open>AList.update\<close> (an existing key
    keeps its place and gets the new value, a new key goes to the end). A Python dict has
    no repeated key: \<open>distinct (map fst d)\<close>.
  \<^item> Exceptions are values: a function returns \<open>py_error + 'a\<close>, \<open>Inl\<close> the exception.
    Python's \<^verbatim>\<open>None\<close> result is \<open>None\<close> of an \<open>option\<close>.
  \<^item> The lines of the file are the input of \<open>load_glove_model\<close>; opening and decoding the
    file are outside the model. A character is read as a code point below 256.
  \<^item> The conversion of one token to a number is numpy's, not this program's: it is the
    parameter \<open>to_float\<close>, \<open>None\<close> where numpy raises \<^verbatim>\<open>ValueError\<close>.
  \<^item> The components of a vector are real numbers and \<open>dot\<close>, \<open>norm\<close> and the division
    are exact: the rounding, overflow and underflow of \<^verbatim>\<open>float32\<close> are not modelled, and
    neither are components that are themselves infinite or NaN. The division keeps what
    IEEE 754 does with a zero divisor: \<open>0 / 0\<close> is NaN and \<open>x / 0\<close> is an infinity, returned
    as ordinary values (numpy prints a \<^verbatim>\<open>RuntimeWarning\<close> and raises nothing).
    The statements about the functions use this arithmetic only where \<^verbatim>\<open>float32\<close> agrees
    with it: the zero vector has the dot product 0 and the norm 0 exactly, and a product
    does not depend on the order of its factors. No statement bounds a score that is not
    NaN.
\<close>

subsection \<open>Exceptions\<close>

datatype py_error = IndexError | ValueError | TypeError

subsection \<open>\<^verbatim>\<open>str.split()\<close>\<close>

text \<open>
  \<^verbatim>\<open>line.split()\<close> without arguments cuts the line at runs of whitespace and returns the
  non-empty pieces. The whitespace characters below 256 are tab to carriage return
  (9 to 13), the separators 28 to 31, the space, and the code points 133 and 160.
\<close>

definition isspace :: "char \<Rightarrow> bool" where
  "isspace c = (of_char c \<in> {9, 10, 11, 12, 13, 28, 29, 30, 31, 32, 133, 160 :: nat})"

text \<open>\<open>split_from cur s\<close>: \<open>cur\<close> is the piece being read, in reverse.\<close>

fun split_from :: "string \<Rightarrow> string \<Rightarrow> string list" where
  "split_from cur [] = (if cur = [] then [] else [rev cur])"
| "split_from cur (c # cs) =
     (if isspace c
      then (if cur = [] then split_from [] cs else rev cur # split_from [] cs)
      else split_from (c # cur) cs)"

definition split :: "string \<Rightarrow> string list" where
  "split line = split_from [] line"

subsection \<open>\<^verbatim>\<open>load_glove_model\<close>\<close>

text \<open>
  \<^verbatim>\<open>np.array(split_line[1:], dtype=np.float32)\<close> converts every token and raises
  \<^verbatim>\<open>ValueError\<close> at a token that is not a number; the empty list gives the empty array.
\<close>

fun np_array :: "(string \<Rightarrow> 'a option) \<Rightarrow> string list \<Rightarrow> 'a list option" where
  "np_array to_float [] = Some []"
| "np_array to_float (t # ts) =
     (case to_float t of
        None \<Rightarrow> None
      | Some x \<Rightarrow> (case np_array to_float ts of None \<Rightarrow> None | Some xs \<Rightarrow> Some (x # xs)))"

text \<open>
  The loop \<^verbatim>\<open>for line in f\<close>, with the dictionary \<^verbatim>\<open>glove_model\<close> as the state.
  \<^verbatim>\<open>split_line[0]\<close> raises \<^verbatim>\<open>IndexError\<close> on the empty list. There is no check of the
  number of components.
\<close>

fun load_lines ::
  "(string \<Rightarrow> 'a option) \<Rightarrow> string list \<Rightarrow> (string \<times> 'a list) list
     \<Rightarrow> py_error + (string \<times> 'a list) list" where
  "load_lines to_float [] glove_model = Inr glove_model"
| "load_lines to_float (line # rest) glove_model =
     (case split line of
        [] \<Rightarrow> Inl IndexError
      | word # tokens \<Rightarrow>
          (case np_array to_float tokens of
             None \<Rightarrow> Inl ValueError
           | Some embedding \<Rightarrow>
               load_lines to_float rest (AList.update word embedding glove_model)))"

definition load_glove_model ::
  "(string \<Rightarrow> 'a option) \<Rightarrow> string list \<Rightarrow> py_error + (string \<times> 'a list) list" where
  "load_glove_model to_float lines = load_lines to_float lines []"

text \<open>
  How numpy reads the tokens used in the examples of this file: a finite table, standing
  for \<open>to_float\<close> there. Every other token is taken as not a number, as \<^verbatim>\<open>abc\<close> is.
\<close>

definition sample_to_float :: "string \<Rightarrow> real option" where
  "sample_to_float = map_of [(''0'', 0), (''1'', 1), (''1.0'', 1), (''2'', 2)]"

subsection \<open>\<^verbatim>\<open>cosine_similarity\<close>\<close>

text \<open>
  A \<^verbatim>\<open>float32\<close> result: a finite number, an infinity or NaN.
\<close>

datatype npfloat = Fin real | PInf | NInf | NaN

text \<open>
  \<^verbatim>\<open>numpy.dot\<close> of two one-dimensional arrays raises \<^verbatim>\<open>ValueError\<close> when their lengths
  differ. \<^verbatim>\<open>numpy.linalg.norm\<close> of a one-dimensional array is \<^verbatim>\<open>sqrt(x.dot(x))\<close>.
\<close>

definition dot :: "real list \<Rightarrow> real list \<Rightarrow> py_error + real" where
  "dot a b =
     (if length a \<noteq> length b then Inl ValueError
      else Inr (sum_list (map2 (*) a b)))"

definition norm_l2 :: "real list \<Rightarrow> real" where
  "norm_l2 x = sqrt (sum_list (map2 (*) x x))"

text \<open>
  The division of two \<^verbatim>\<open>float32\<close> scalars; the divisor here is never negative. In exact
  arithmetic a divisor 0 comes with a dividend 0, so that \<^verbatim>\<open>cosine_similarity\<close> returns no
  infinity; in \<^verbatim>\<open>float32\<close> it can return one, when the norms underflow.
\<close>

definition true_divide :: "real \<Rightarrow> real \<Rightarrow> npfloat" where
  "true_divide x y =
     (if y = 0 then (if x = 0 then NaN else if 0 < x then PInf else NInf)
      else Fin (x / y))"

definition cosine_similarity ::
  "string \<Rightarrow> string \<Rightarrow> (string \<times> real list) list \<Rightarrow> py_error + npfloat option" where
  "cosine_similarity word1 word2 glove_vectors =
     (case (map_of glove_vectors word1, map_of glove_vectors word2) of
        (Some vec1, Some vec2) \<Rightarrow>
          (case dot vec1 vec2 of
             Inl e \<Rightarrow> Inl e
           | Inr d \<Rightarrow> Inr (Some (true_divide d (norm_l2 vec1 * norm_l2 vec2))))
      | _ \<Rightarrow> Inr None)"

subsection \<open>\<^verbatim>\<open>find_most_similar\<close>\<close>

text \<open>
  The comparisons of \<^verbatim>\<open>float32\<close> values: every comparison with NaN is false.
\<close>

fun float_lt :: "npfloat \<Rightarrow> npfloat \<Rightarrow> bool" where
  "float_lt (Fin x) (Fin y) = (x < y)"
| "float_lt (Fin x) PInf = True"
| "float_lt NInf (Fin y) = True"
| "float_lt NInf PInf = True"
| "float_lt _ _ = False"

fun float_le :: "npfloat \<Rightarrow> npfloat \<Rightarrow> bool" where
  "float_le (Fin x) (Fin y) = (x \<le> y)"
| "float_le (Fin x) PInf = True"
| "float_le NInf (Fin y) = True"
| "float_le NInf PInf = True"
| "float_le PInf PInf = True"
| "float_le NInf NInf = True"
| "float_le _ _ = False"

text \<open>
  The loop over \<^verbatim>\<open>glove_vectors.items()\<close>, with the dictionary \<^verbatim>\<open>similarities\<close> as the
  state. An exception of \<^verbatim>\<open>cosine_similarity\<close> ends the loop. The vector of the
  item is not used: \<^verbatim>\<open>cosine_similarity\<close> looks both words up again.
\<close>

fun similarity_loop ::
  "string \<Rightarrow> (string \<times> real list) list \<Rightarrow> (string \<times> real list) list
     \<Rightarrow> (string \<times> npfloat option) list \<Rightarrow> py_error + (string \<times> npfloat option) list" where
  "similarity_loop word glove_vectors [] similarities = Inr similarities"
| "similarity_loop word glove_vectors ((other_word, other_vec) # rest) similarities =
     (if other_word \<noteq> word
      then (case cosine_similarity word other_word glove_vectors of
              Inl e \<Rightarrow> Inl e
            | Inr similarity \<Rightarrow>
                similarity_loop word glove_vectors rest
                  (AList.update other_word similarity similarities))
      else similarity_loop word glove_vectors rest similarities)"

text \<open>
  \<^verbatim>\<open>sorted(similarities.items(), key=lambda item: item[1], reverse=True)\<close>: a stable
  sort into descending order of the key that uses only \<^verbatim>\<open><\<close> on the keys. The keys are
  what \<^verbatim>\<open>cosine_similarity\<close> returned, a float or \<^verbatim>\<open>None\<close>, and \<^verbatim>\<open><\<close> with \<^verbatim>\<open>None\<close>
  raises \<^verbatim>\<open>TypeError\<close>. The model is the insertion sort: an item goes in front of the
  first item that its key is not less than, so that items of equal key keep their order.
  On keys without NaN every stable sort returns this list. With a NaN among the keys the
  comparisons are no order and the result depends on the algorithm: the model returns
  what CPython returns for at most two items, and for more items CPython's list has the
  same items, possibly in another order. The statements about \<^verbatim>\<open>find_most_similar\<close> use
  the order of the sorted list only when no key is NaN or when it has at most two items.
\<close>

fun py_lt :: "npfloat option \<Rightarrow> npfloat option \<Rightarrow> py_error + bool" where
  "py_lt (Some x) (Some y) = Inr (float_lt x y)"
| "py_lt _ _ = Inl TypeError"

fun insert_desc ::
  "string \<times> npfloat option \<Rightarrow> (string \<times> npfloat option) list
     \<Rightarrow> py_error + (string \<times> npfloat option) list" where
  "insert_desc item [] = Inr [item]"
| "insert_desc item (other # rest) =
     (case py_lt (snd item) (snd other) of
        Inl e \<Rightarrow> Inl e
      | Inr b \<Rightarrow>
          (if b
           then (case insert_desc item rest of Inl e \<Rightarrow> Inl e | Inr r \<Rightarrow> Inr (other # r))
           else Inr (item # other # rest)))"

fun sorted_reverse ::
  "(string \<times> npfloat option) list \<Rightarrow> py_error + (string \<times> npfloat option) list" where
  "sorted_reverse [] = Inr []"
| "sorted_reverse (item # items) =
     (case sorted_reverse items of Inl e \<Rightarrow> Inl e | Inr s \<Rightarrow> insert_desc item s)"

text \<open>
  The slice \<^verbatim>\<open>xs[:top_n]\<close>: a negative bound counts from the end.
\<close>

definition slice_to :: "int \<Rightarrow> 'a list \<Rightarrow> 'a list" where
  "slice_to top_n xs =
     (if 0 \<le> top_n then take (nat top_n) xs
      else take (length xs - nat (- top_n)) xs)"

definition find_most_similar ::
  "string \<Rightarrow> (string \<times> real list) list \<Rightarrow> int
     \<Rightarrow> py_error + (string \<times> npfloat option) list option" where
  "find_most_similar word glove_vectors top_n =
     (if map_of glove_vectors word = None then Inr None
      else (case similarity_loop word glove_vectors glove_vectors [] of
              Inl e \<Rightarrow> Inl e
            | Inr similarities \<Rightarrow>
                (case sorted_reverse similarities of
                   Inl e \<Rightarrow> Inl e
                 | Inr most_similar \<Rightarrow> Inr (Some (slice_to top_n most_similar)))))"

subsection \<open>The vocabulary of the claims\<close>

text \<open>
  A word is present when it is a key. A store in the sense of the specification has one
  dimensionality for all its vectors. A ranked result is sorted by non-increasing score
  when every earlier score is \<^verbatim>\<open>>=\<close> every later one, and a score lies in the unit
  interval when \<^verbatim>\<open>-1.0 <= s <= 1.0\<close>; both are false of NaN.
\<close>

definition present :: "string \<Rightarrow> (string \<times> 'v) list \<Rightarrow> bool" where
  "present word d = (word \<in> fst ` set d)"

definition uniform_dim :: "(string \<times> 'a list) list \<Rightarrow> bool" where
  "uniform_dim d = (\<forall>p \<in> set d. \<forall>q \<in> set d. length (snd p) = length (snd q))"

fun score_ge :: "npfloat option \<Rightarrow> npfloat option \<Rightarrow> bool" where
  "score_ge (Some x) (Some y) = float_le y x"
| "score_ge _ _ = False"

definition non_increasing :: "(string \<times> npfloat option) list \<Rightarrow> bool" where
  "non_increasing ranked = sorted_wrt (\<lambda>p q. score_ge (snd p) (snd q)) ranked"


text \<open>
  Python's \<^verbatim>\<open>==\<close> on two results of \<^verbatim>\<open>cosine_similarity\<close>: NaN is equal to nothing, not
  to itself either. \<open>swapped_equal a b store\<close> is the expression
  \<^verbatim>\<open>cosine_similarity(a, b, store) == cosine_similarity(b, a, store)\<close>.
\<close>

fun float_eq :: "npfloat \<Rightarrow> npfloat \<Rightarrow> bool" where
  "float_eq (Fin x) (Fin y) = (x = y)"
| "float_eq PInf PInf = True"
| "float_eq NInf NInf = True"
| "float_eq _ _ = False"

fun py_eq :: "npfloat option \<Rightarrow> npfloat option \<Rightarrow> bool" where
  "py_eq None None = True"
| "py_eq (Some x) (Some y) = float_eq x y"
| "py_eq _ _ = False"

definition swapped_equal :: "string \<Rightarrow> string \<Rightarrow> (string \<times> real list) list \<Rightarrow> py_error + bool" where
  "swapped_equal a b store =
     (case cosine_similarity a b store of
        Inl e \<Rightarrow> Inl e
      | Inr x \<Rightarrow> (case cosine_similarity b a store of Inl e \<Rightarrow> Inl e | Inr y \<Rightarrow> Inr (py_eq x y)))"

text \<open>No key of the list is \<^verbatim>\<open>None\<close> or NaN: \<^verbatim>\<open><\<close> is a total order on such keys.\<close>

definition no_nan :: "(string \<times> npfloat option) list \<Rightarrow> bool" where
  "no_nan xs = (\<forall>p \<in> set xs. \<exists>x. snd p = Some x \<and> x \<noteq> NaN)"

section \<open>Properties of the functions\<close>

subsection \<open>Splitting and loading\<close>

lemma split_from_Nil_iff: "split_from cur s = [] \<longleftrightarrow> cur = [] \<and> (\<forall>c \<in> set s. isspace c)"
  by (induction s arbitrary: cur) auto

lemma split_Nil_iff: "split line = [] \<longleftrightarrow> (\<forall>c \<in> set line. isspace c)"
  by (simp add: split_def split_from_Nil_iff)

lemma np_array_None_iff: "np_array f ts = None \<longleftrightarrow> (\<exists>t \<in> set ts. f t = None)"
  by (induction ts) (auto split: option.splits)

lemma np_array_length: "np_array f ts = Some v \<Longrightarrow> length v = length ts"
  by (induction ts arbitrary: v) (auto split: option.splits)

lemma load_lines_append:
  "load_lines f (pre @ post) st =
     (case load_lines f pre st of Inl e \<Rightarrow> Inl e | Inr st' \<Rightarrow> load_lines f post st')"
  by (induction pre arbitrary: st) (auto split: list.splits option.splits)


lemma load_lines_other_words:
  "load_lines f lines st = Inr st' \<Longrightarrow> \<forall>l \<in> set lines. \<forall>ts. split l \<noteq> w # ts \<Longrightarrow>
     map_of st' w = map_of st w"
  by (induction lines arbitrary: st) (auto split: list.splits option.splits simp: update_conv')

lemma load_lines_last_wins:
  assumes "load_lines f (pre @ l # post) st = Inr st'" and "split l = w # ts"
    and "\<forall>l' \<in> set post. \<forall>ts'. split l' \<noteq> w # ts'"
  shows "map_of st' w = np_array f ts \<and> np_array f ts \<noteq> None"
proof -
  from assms(1) obtain st1 where 1: "load_lines f pre st = Inr st1"
    and 2: "load_lines f (l # post) st1 = Inr st'"
    by (auto simp: load_lines_append split: sum.splits)
  from 2 assms(2) obtain v where v: "np_array f ts = Some v"
    and 3: "load_lines f post (AList.update w v st1) = Inr st'"
    by (auto split: option.splits)
  from load_lines_other_words [OF 3 assms(3)] v show ?thesis by (simp add: update_conv')
qed

lemma set_update_subset: "set (AList.update k v al) \<subseteq> insert (k, v) (set al)"
  by (induction al) auto

lemma load_lines_origin:
  "load_lines f lines st = Inr st' \<Longrightarrow> (w, v) \<in> set st' \<Longrightarrow>
     (w, v) \<in> set st \<or> (\<exists>l \<in> set lines. \<exists>ts. split l = w # ts \<and> np_array f ts = Some v)"
proof (induction lines arbitrary: st)
  case Nil
  then show ?case by simp
next
  case (Cons a lines)
  from Cons.prems(1) obtain w0 ts0 v0 where a: "split a = w0 # ts0" "np_array f ts0 = Some v0"
    and r: "load_lines f lines (AList.update w0 v0 st) = Inr st'"
    by (auto split: list.splits option.splits)
  from Cons.IH [OF r Cons.prems(2)] show ?case
  proof
    assume "(w, v) \<in> set (AList.update w0 v0 st)"
    with set_update_subset [of w0 v0 st] have "(w, v) = (w0, v0) \<or> (w, v) \<in> set st" by auto
    with a show ?thesis by auto
  next
    assume "\<exists>l\<in>set lines. \<exists>ts. split l = w # ts \<and> np_array f ts = Some v"
    then show ?thesis by auto
  qed
qed

lemma load_lines_total:
  "\<forall>l \<in> set lines. split l \<noteq> [] \<and> (\<forall>t \<in> set (tl (split l)). f t \<noteq> None) \<Longrightarrow>
     \<exists>st'. load_lines f lines st = Inr st'"
proof (induction lines arbitrary: st)
  case Nil
  then show ?case by simp
next
  case (Cons a lines)
  then obtain w ts where a: "split a = w # ts" by (cases "split a") auto
  with Cons.prems have "np_array f ts \<noteq> None" by (auto simp: np_array_None_iff)
  then obtain v where "np_array f ts = Some v" by auto
  with a Cons show ?case by auto
qed


subsection \<open>Dot product, norm and the Cauchy-Schwarz inequality\<close>

lemma sum_squares_nonneg: "0 \<le> sum_list (map2 (*) x x)" for x :: "real list"
  by (induction x) auto

lemma step_ineq:
  fixes x y S A B :: real
  assumes "S\<^sup>2 \<le> A * B" "0 \<le> A" "0 \<le> B"
  shows "(x * y + S)\<^sup>2 \<le> (x * x + A) * (y * y + B)"
proof -
  have "2 * (x * y) * S \<le> x * x * B + y * y * A"
  proof (rule ccontr)
    assume "\<not> ?thesis"
    then have gt: "x * x * B + y * y * A < 2 * (x * y) * S" by simp
    have nn: "0 \<le> x * x * B + y * y * A" using assms by simp
    from gt nn have "(x * x * B + y * y * A)\<^sup>2 < (2 * (x * y) * S)\<^sup>2"
      by (intro power_strict_mono) auto
    moreover have "(2 * (x * y) * S)\<^sup>2 = 4 * ((x * x) * (y * y)) * S\<^sup>2"
      by (simp add: power2_eq_square algebra_simps)
    moreover have "4 * ((x * x) * (y * y)) * S\<^sup>2 \<le> 4 * ((x * x) * (y * y)) * (A * B)"
      using assms(1) by (intro mult_left_mono) auto
    moreover have "4 * ((x * x) * (y * y)) * (A * B) \<le> (x * x * B + y * y * A)\<^sup>2"
    proof -
      have "0 \<le> (x * x * B - y * y * A)\<^sup>2" by simp
      then show ?thesis by (simp add: power2_eq_square algebra_simps)
    qed
    ultimately show False by linarith
  qed
  then show ?thesis using assms(1) by (simp add: power2_eq_square algebra_simps)
qed

lemma cauchy_schwarz_list:
  fixes a b :: "real list"
  assumes "length a = length b"
  shows "(sum_list (map2 (*) a b))\<^sup>2 \<le> sum_list (map2 (*) a a) * sum_list (map2 (*) b b)"
  using assms
proof (induction a b rule: list_induct2)
  case Nil
  then show ?case by simp
next
  case (Cons x xs y ys)
  from step_ineq [OF Cons.IH sum_squares_nonneg sum_squares_nonneg, of x y]
  show ?case by simp
qed

lemma dot_commute: "sum_list (map2 (*) a b) = sum_list (map2 (*) b a)" for a b :: "real list"
proof (induction a arbitrary: b)
  case Nil
  then show ?case by simp
next
  case (Cons x a)
  then show ?case by (cases b) (simp_all add: mult.commute)
qed

lemma abs_dot_le:
  assumes "length a = length b"
  shows "\<bar>sum_list (map2 (*) a b)\<bar> \<le> norm_l2 a * norm_l2 b"
proof -
  have "\<bar>sum_list (map2 (*) a b)\<bar> = sqrt ((sum_list (map2 (*) a b))\<^sup>2)" by simp
  also have "\<dots> \<le> sqrt (sum_list (map2 (*) a a) * sum_list (map2 (*) b b))"
    using cauchy_schwarz_list [OF assms] by (rule real_sqrt_le_mono)
  also have "\<dots> = norm_l2 a * norm_l2 b" by (simp add: norm_l2_def real_sqrt_mult)
  finally show ?thesis .
qed

lemma cosine_present:
  assumes "map_of gv w1 = Some v1" "map_of gv w2 = Some v2" "length v1 = length v2"
  shows "cosine_similarity w1 w2 gv =
           Inr (Some (true_divide (sum_list (map2 (*) v1 v2)) (norm_l2 v1 * norm_l2 v2)))"
  using assms by (simp add: cosine_similarity_def dot_def)

lemma true_divide_zero_norm:
  assumes "length a = length b" "norm_l2 a = 0 \<or> norm_l2 b = 0"
  shows "true_divide (sum_list (map2 (*) a b)) (norm_l2 a * norm_l2 b) = NaN"
proof -
  from assms(2) have z: "norm_l2 a * norm_l2 b = 0" by auto
  with abs_dot_le [OF assms(1)] have "sum_list (map2 (*) a b) = 0" by simp
  with z show ?thesis by (simp add: true_divide_def)
qed

lemma present_map_of: "present word d \<longleftrightarrow> map_of d word \<noteq> None"
  by (simp add: present_def map_of_eq_None_iff)

subsection \<open>The loop of \<^verbatim>\<open>find_most_similar\<close>\<close>

lemma cosine_no_error:
  assumes "map_of gv word = Some qv" "\<forall>p \<in> set gv. length (snd p) = length qv" "k \<in> fst ` set gv"
  shows "\<exists>v. (k, v) \<in> set gv \<and> length v = length qv \<and> cosine_similarity word k gv =
           Inr (Some (true_divide (sum_list (map2 (*) qv v)) (norm_l2 qv * norm_l2 v)))"
proof -
  from assms(3) obtain v where v: "map_of gv k = Some v"
    by (metis domD dom_map_of_conv_image_fst)
  then have in_gv: "(k, v) \<in> set gv" by (rule map_of_SomeD)
  with assms(2) have "length v = length qv" by auto
  with v in_gv assms(1) show ?thesis by (auto simp: cosine_present)
qed

lemma similarity_loop_no_error:
  assumes "map_of gv word = Some qv" "\<forall>p \<in> set gv. length (snd p) = length qv"
  shows "set items \<subseteq> set gv \<Longrightarrow> \<exists>sims'. similarity_loop word gv items sims = Inr sims'"
proof (induction items arbitrary: sims)
  case Nil
  then show ?case by simp
next
  case (Cons item items)
  obtain k v where item: "item = (k, v)" by (cases item)
  with Cons.prems have "k \<in> fst ` set gv" by force
  from cosine_no_error [OF assms this] obtain s where "cosine_similarity word k gv = Inr s" by auto
  with Cons item show ?case by auto
qed

lemma similarity_loop_origin:
  "similarity_loop word gv items sims = Inr sims' \<Longrightarrow> (k, s) \<in> set sims' \<Longrightarrow>
     (k, s) \<in> set sims \<or> (k \<noteq> word \<and> k \<in> fst ` set items \<and> cosine_similarity word k gv = Inr s)"
proof (induction items arbitrary: sims)
  case Nil
  then show ?case by simp
next
  case (Cons item items)
  obtain k0 v0 where item: "item = (k0, v0)" by (cases item)
  show ?case
  proof (cases "k0 = word")
    case True
    with Cons item show ?thesis by auto
  next
    case False
    with Cons.prems(1) item obtain s0 where s0: "cosine_similarity word k0 gv = Inr s0"
      and r: "similarity_loop word gv items (AList.update k0 s0 sims) = Inr sims'"
      by (auto split: sum.splits)
    from Cons.IH [OF r Cons.prems(2)] show ?thesis
    proof
      assume "(k, s) \<in> set (AList.update k0 s0 sims)"
      with set_update_subset [of k0 s0 sims] have "(k, s) = (k0, s0) \<or> (k, s) \<in> set sims" by auto
      with s0 False item show ?thesis by auto
    next
      assume "k \<noteq> word \<and> k \<in> fst ` set items \<and> cosine_similarity word k gv = Inr s"
      with item show ?thesis by auto
    qed
  qed
qed

lemma similarity_loop_keys:
  "similarity_loop word gv items sims = Inr sims' \<Longrightarrow> distinct (map fst items) \<Longrightarrow>
     fst ` set sims \<inter> fst ` set items = {} \<Longrightarrow>
     map fst sims' = map fst sims @ filter (\<lambda>k. k \<noteq> word) (map fst items)"
proof (induction items arbitrary: sims)
  case Nil
  then show ?case by simp
next
  case (Cons item items)
  obtain k0 v0 where item: "item = (k0, v0)" by (cases item)
  show ?case
  proof (cases "k0 = word")
    case True
    with Cons item show ?thesis by auto
  next
    case False
    with Cons.prems(1) item obtain s0 where
      r: "similarity_loop word gv items (AList.update k0 s0 sims) = Inr sims'"
      by (auto split: sum.splits)
    from Cons.prems(3) item have fresh: "k0 \<notin> fst ` set sims" by auto
    then have keys: "map fst (AList.update k0 s0 sims) = map fst sims @ [k0]"
      by (simp add: update_keys)
    from Cons.prems(2,3) item have "fst ` set (AList.update k0 s0 sims) \<inter> fst ` set items = {}"
      by (auto simp: dom_update)
    from Cons.IH [OF r _ this] Cons.prems(2) keys item False show ?thesis by simp
  qed
qed

lemma count_others:
  "distinct ks \<Longrightarrow> w \<in> set ks \<Longrightarrow> length (filter (\<lambda>k. k \<noteq> w) ks) = length ks - 1"
proof (induction ks)
  case Nil
  then show ?case by simp
next
  case (Cons a ks)
  show ?case
  proof (cases "a = w")
    case True
    with Cons.prems have "filter (\<lambda>k. k \<noteq> w) ks = ks" by (auto simp: filter_id_conv)
    with True show ?thesis by simp
  next
    case False
    with Cons.prems have "w \<in> set ks" by simp
    then have "0 < length ks" by (cases ks) auto
    with False Cons show ?thesis by simp
  qed
qed

subsection \<open>The sort\<close>

lemma float_le_trans: "float_le x y \<Longrightarrow> float_le y z \<Longrightarrow> float_le x z"
  by (cases x; cases y; cases z) auto

lemma float_lt_le: "float_lt x y \<Longrightarrow> float_le x y"
  by (cases x; cases y) auto

lemma float_not_lt: "\<not> float_lt x y \<Longrightarrow> x \<noteq> NaN \<Longrightarrow> y \<noteq> NaN \<Longrightarrow> float_le y x"
  by (cases x; cases y) auto

lemma insert_desc_result:
  "insert_desc item xs = Inr ys \<Longrightarrow> set ys = insert item (set xs) \<and> length ys = Suc (length xs)"
proof (induction xs arbitrary: ys)
  case Nil
  then show ?case by auto
next
  case (Cons other rest)
  show ?case
  proof (cases "py_lt (snd item) (snd other)")
    case (Inl e)
    with Cons.prems show ?thesis by simp
  next
    case (Inr b)
    show ?thesis
    proof (cases b)
      case True
      with Inr Cons.prems obtain r where r: "insert_desc item rest = Inr r" and ys: "ys = other # r"
        by (cases "insert_desc item rest") auto
      from Cons.IH [OF r] ys show ?thesis by auto
    next
      case False
      with Inr Cons.prems show ?thesis by auto
    qed
  qed
qed

lemma insert_desc_no_error:
  "snd item \<noteq> None \<Longrightarrow> \<forall>p \<in> set xs. snd p \<noteq> None \<Longrightarrow> \<exists>ys. insert_desc item xs = Inr ys"
proof (induction xs)
  case Nil
  then show ?case by simp
next
  case (Cons other rest)
  then obtain x y where xy: "snd item = Some x" "snd other = Some y" by auto
  from Cons obtain r where "insert_desc item rest = Inr r" by auto
  with xy show ?case by simp
qed

lemma sorted_reverse_result:
  "sorted_reverse xs = Inr ys \<Longrightarrow> set ys = set xs \<and> length ys = length xs"
proof (induction xs arbitrary: ys)
  case Nil
  then show ?case by simp
next
  case (Cons item items)
  then obtain s where s: "sorted_reverse items = Inr s" and i: "insert_desc item s = Inr ys"
    by (cases "sorted_reverse items") auto
  from Cons.IH [OF s] insert_desc_result [OF i] show ?case by simp
qed

lemma sorted_reverse_no_error:
  "\<forall>p \<in> set xs. snd p \<noteq> None \<Longrightarrow> \<exists>ys. sorted_reverse xs = Inr ys"
proof (induction xs)
  case Nil
  then show ?case by simp
next
  case (Cons item items)
  then obtain s where s: "sorted_reverse items = Inr s" by auto
  with sorted_reverse_result [OF s] Cons.prems
  have "snd item \<noteq> None" "\<forall>p \<in> set s. snd p \<noteq> None" by auto
  from insert_desc_no_error [OF this] s show ?case by simp
qed

lemma insert_desc_sorted:
  "insert_desc item xs = Inr ys \<Longrightarrow> non_increasing xs \<Longrightarrow> no_nan (item # xs) \<Longrightarrow>
     non_increasing ys"
proof (induction xs arbitrary: ys)
  case Nil
  then show ?case by (auto simp: non_increasing_def)
next
  case (Cons other rest)
  from Cons.prems(3) obtain x y where x: "snd item = Some x" "x \<noteq> NaN"
    and y: "snd other = Some y" "y \<noteq> NaN" by (auto simp: no_nan_def)
  show ?case
  proof (cases "float_lt x y")
    case True
    with Cons.prems(1) x y obtain r where r: "insert_desc item rest = Inr r" and ys: "ys = other # r"
      by (cases "insert_desc item rest") auto
    from Cons.prems have "non_increasing rest" "no_nan (item # rest)"
      by (auto simp: non_increasing_def no_nan_def)
    from Cons.IH [OF r this] have sr: "non_increasing r" .
    from True x y have "score_ge (snd other) (snd item)" by (simp add: float_lt_le)
    with Cons.prems(2) insert_desc_result [OF r] sr ys show ?thesis
      by (auto simp: non_increasing_def)
  next
    case False
    with Cons.prems(1) x y have ys: "ys = item # other # rest" by auto
    from False x y have ge: "float_le y x" by (simp add: float_not_lt)
    have "score_ge (snd item) (snd q)" if "q \<in> set rest" for q
    proof -
      from that Cons.prems(2) have "score_ge (snd other) (snd q)" by (auto simp: non_increasing_def)
      with y obtain z where "snd q = Some z" "float_le z y" by (cases "snd q") auto
      with ge x show ?thesis by (auto intro: float_le_trans)
    qed
    with ge x y Cons.prems(2) ys show ?thesis by (auto simp: non_increasing_def)
  qed
qed

lemma sorted_reverse_sorted:
  "sorted_reverse xs = Inr ys \<Longrightarrow> no_nan xs \<Longrightarrow> non_increasing ys"
proof (induction xs arbitrary: ys)
  case Nil
  then show ?case by (simp add: non_increasing_def)
next
  case (Cons item items)
  then obtain s where s: "sorted_reverse items = Inr s" and i: "insert_desc item s = Inr ys"
    by (cases "sorted_reverse items") auto
  from Cons.prems(2) have "no_nan items" by (simp add: no_nan_def)
  from Cons.IH [OF s this] have "non_increasing s" .
  moreover from Cons.prems(2) sorted_reverse_result [OF s] have "no_nan (item # s)"
    by (simp add: no_nan_def)
  ultimately show ?case using i by (rule insert_desc_sorted [rotated])
qed

lemma non_increasing_take: "non_increasing xs \<Longrightarrow> non_increasing (take n xs)"
  unfolding non_increasing_def by (rule sorted_wrt_take)

subsection \<open>The whole of \<^verbatim>\<open>find_most_similar\<close>\<close>


lemma find_most_similar_returns:
  assumes "present word gv" and "uniform_dim gv"
  shows "\<exists>sims most. similarity_loop word gv gv [] = Inr sims \<and> sorted_reverse sims = Inr most \<and>
           find_most_similar word gv top_n = Inr (Some (slice_to top_n most)) \<and>
           (\<forall>p \<in> set sims. snd p \<noteq> None)"
proof -
  from assms(1) obtain qv where qv: "map_of gv word = Some qv" by (auto simp: present_map_of)
  then have in_gv: "(word, qv) \<in> set gv" by (rule map_of_SomeD)
  have len: "\<forall>p \<in> set gv. length (snd p) = length qv"
  proof
    fix p assume "p \<in> set gv"
    with assms(2) in_gv have "length (snd p) = length (snd (word, qv))"
      unfolding uniform_dim_def by blast
    then show "length (snd p) = length qv" by simp
  qed
  from similarity_loop_no_error [OF qv len subset_refl]
  obtain sims where sims: "similarity_loop word gv gv [] = Inr sims" by auto
  have some: "\<forall>p \<in> set sims. snd p \<noteq> None"
  proof
    fix p assume "p \<in> set sims"
    then have "(fst p, snd p) \<in> set sims" by simp
    from similarity_loop_origin [OF sims this]
    have k: "fst p \<in> fst ` set gv" and c: "cosine_similarity word (fst p) gv = Inr (snd p)" by auto
    from cosine_no_error [OF qv len k] c show "snd p \<noteq> None" by auto
  qed
  from sorted_reverse_no_error [OF this] obtain most where most: "sorted_reverse sims = Inr most"
    by auto
  from qv sims most some show ?thesis by (simp add: find_most_similar_def)
qed

lemma float_eq_refl_iff: "float_eq s s \<longleftrightarrow> s \<noteq> NaN"
  by (cases s) simp_all

lemma zero_vector_squares: "set v \<subseteq> {0} \<Longrightarrow> sum_list (map2 (*) v v) = 0" for v :: "real list"
  by (induction v) simp_all

lemma norm_l2_zero_vector: "set v \<subseteq> {0} \<Longrightarrow> norm_l2 v = 0"
  by (simp add: norm_l2_def zero_vector_squares)

lemma cosine_error_kind: "cosine_similarity a b gv = Inl e \<Longrightarrow> e = ValueError"
proof -
  assume r: "cosine_similarity a b gv = Inl e"
  then obtain v1 v2 where v: "map_of gv a = Some v1" "map_of gv b = Some v2"
    by (cases "map_of gv a"; cases "map_of gv b") (simp_all add: cosine_similarity_def)
  with r show ?thesis
    by (cases "length v1 = length v2") (simp_all add: cosine_similarity_def dot_def)
qed

lemma similarity_loop_raises:
  "(k, v) \<in> set items \<Longrightarrow> k \<noteq> word \<Longrightarrow> cosine_similarity word k gv = Inl e \<Longrightarrow>
     similarity_loop word gv items sims = Inl ValueError"
proof (induction items arbitrary: sims)
  case Nil
  then show ?case by simp
next
  case (Cons item items)
  obtain k0 v0 where item: "item = (k0, v0)" by (cases item)
  show ?case
  proof (cases "k0 = word")
    case True
    with Cons item show ?thesis by auto
  next
    case False
    show ?thesis
    proof (cases "cosine_similarity word k0 gv")
      case (Inl e')
      with item False show ?thesis by (simp add: cosine_error_kind)
    next
      case (Inr s)
      with Cons.prems have "(k, v) \<in> set items" using item by auto
      from Cons.IH [OF this Cons.prems(2,3)] Inr item False show ?thesis by simp
    qed
  qed
qed

lemma distinct_keys_value:
  "distinct (map fst d) \<Longrightarrow> (k, v) \<in> set d \<Longrightarrow> (k, v') \<in> set d \<Longrightarrow> v = v'"
  by (metis map_of_is_SomeI option.inject)

lemma mixed_store_raises:
  assumes "distinct (map fst gv)" and "present word gv" and "\<not> uniform_dim gv"
  shows "find_most_similar word gv top_n = Inl ValueError"
proof -
  from assms(2) obtain qv where qv: "map_of gv word = Some qv" by (auto simp: present_map_of)
  then have in_gv: "(word, qv) \<in> set gv" by (rule map_of_SomeD)
  from assms(3) obtain p q where pq: "p \<in> set gv" "q \<in> set gv" "length (snd p) \<noteq> length (snd q)"
    unfolding uniform_dim_def by blast
  then have "length (snd p) \<noteq> length qv \<or> length (snd q) \<noteq> length qv" by linarith
  with pq obtain r where r: "r \<in> set gv" "length (snd r) \<noteq> length qv" by blast
  obtain k v where kv: "r = (k, v)" by (cases r)
  with r have kin: "(k, v) \<in> set gv" and len: "length v \<noteq> length qv" by simp_all
  have ne: "k \<noteq> word"
  proof
    assume "k = word"
    with kin in_gv assms(1) have "v = qv" by (auto dest: distinct_keys_value)
    with len show False by simp
  qed
  from assms(1) kin have "map_of gv k = Some v" by (rule map_of_is_SomeI)
  with qv len have "cosine_similarity word k gv = Inl ValueError"
    by (simp add: cosine_similarity_def dot_def)
  from similarity_loop_raises [OF kin ne this]
  have "similarity_loop word gv gv [] = Inl ValueError" .
  with qv show ?thesis by (simp add: find_most_similar_def)
qed

lemma sorted_reverse_keys:
  assumes "sorted_reverse sims = Inr most" and "distinct (map fst sims)"
  shows "distinct (map fst most) \<and> set (map fst most) = set (map fst sims)"
proof -
  from sorted_reverse_result [OF assms(1)] have s: "set most = set sims" and l: "length most = length sims"
    by simp_all
  from assms(2) have ds: "distinct sims" and inj: "inj_on fst (set sims)"
    by (simp_all add: distinct_map)
  from ds have "card (set sims) = length sims" by (rule distinct_card)
  with s l have "card (set most) = length most" by simp
  then have "distinct most" by (rule card_distinct)
  with inj s have "distinct (map fst most)" by (simp add: distinct_map)
  with s show ?thesis by simp
qed

section \<open>The claims about \<^verbatim>\<open>load_glove_model\<close>\<close>

text \<open>
  Claim C4, as the code has it. \<^verbatim>\<open>load_glove_model\<close> makes no check of dimensionality.
  For every input whose lines each have a word and only numbers after it, whatever the
  numbers of tokens, the construction returns a store. The store maps a word to the
  vector of the last line that begins with it, which has exactly as many components as
  that line has tokens after the word, and every entry of the store comes from such a
  line. All vectors of the store have the dimensionality \<open>d\<close> when every line has \<open>d\<close>
  tokens after its word.
\<close>

theorem load_glove_model_no_dimension_check:
  assumes "\<forall>l \<in> set lines. split l \<noteq> [] \<and> (\<forall>t \<in> set (tl (split l)). to_float t \<noteq> None)"
  shows "\<exists>store.
           load_glove_model to_float lines = Inr store \<and>
           (\<forall>p \<in> set store. \<exists>line \<in> set lines. \<exists>tokens.
              split line = fst p # tokens \<and> np_array to_float tokens = Some (snd p) \<and>
              length (snd p) = length tokens) \<and>
           (\<forall>pre line post word tokens.
              lines = pre @ line # post \<and> split line = word # tokens \<and>
              (\<forall>l \<in> set post. \<forall>ts. split l \<noteq> word # ts) \<longrightarrow>
              (\<exists>vec. np_array to_float tokens = Some vec \<and> length vec = length tokens \<and>
                 map_of store word = Some vec)) \<and>
           ((\<forall>l \<in> set lines. length (split l) = Suc d) \<longrightarrow> (\<forall>p \<in> set store. length (snd p) = d))"
proof -
  from load_lines_total [OF assms, of "[]"] obtain store where
    s: "load_lines to_float lines [] = Inr store" by auto
  have origin: "\<exists>line \<in> set lines. \<exists>tokens.
      split line = fst p # tokens \<and> np_array to_float tokens = Some (snd p) \<and>
      length (snd p) = length tokens" if "p \<in> set store" for p
  proof -
    from that have "(fst p, snd p) \<in> set store" by simp
    from load_lines_origin [OF s this] obtain line tokens where l: "line \<in> set lines"
      "split line = fst p # tokens" "np_array to_float tokens = Some (snd p)" by auto
    from l(3) have "length (snd p) = length tokens" by (rule np_array_length)
    with l show ?thesis by blast
  qed
  have last: "\<exists>vec. np_array to_float tokens = Some vec \<and> length vec = length tokens \<and>
      map_of store word = Some vec"
    if a: "lines = pre @ line # post \<and> split line = word # tokens \<and>
      (\<forall>l \<in> set post. \<forall>ts. split l \<noteq> word # ts)" for pre line post word tokens
  proof -
    from a s have 1: "load_lines to_float (pre @ line # post) [] = Inr store" by simp
    from a have 2: "split line = word # tokens"
      and 3: "\<forall>l \<in> set post. \<forall>ts. split l \<noteq> word # ts" by simp_all
    from load_lines_last_wins [OF 1 2 3] obtain vec where
      v: "np_array to_float tokens = Some vec" "map_of store word = Some vec" by auto
    from v(1) have "length vec = length tokens" by (rule np_array_length)
    with v show ?thesis by simp
  qed
  have uni: "\<forall>p \<in> set store. length (snd p) = d" if u: "\<forall>l \<in> set lines. length (split l) = Suc d"
  proof
    fix p assume "p \<in> set store"
    from origin [OF this] obtain line tokens where "line \<in> set lines" "split line = fst p # tokens"
      "length (snd p) = length tokens" by blast
    with u show "length (snd p) = d" by force
  qed
  from s origin last uni show ?thesis unfolding load_glove_model_def by blast
qed

theorem load_glove_model_no_dimension_check_witness:
  "load_glove_model sample_to_float [''the 1 0'', ''of 1'', ''the 2'']
     = Inr [(''the'', [2]), (''of'', [1])] \<and>
   (\<exists>vec. np_array sample_to_float [''1''] = Some vec \<and> length vec = length [''1''] \<and>
      map_of [(''the'', [2]), (''of'', [1])] ''of'' = Some vec)"
proof -
  let ?lines = "[''the 1 0'', ''of 1'', ''the 2'']"
  have wf: "\<forall>l \<in> set ?lines. split l \<noteq> [] \<and> (\<forall>t \<in> set (tl (split l)). sample_to_float t \<noteq> None)"
    by (simp add: split_def isspace_def sample_to_float_def)
  have h: "load_glove_model sample_to_float ?lines = Inr [(''the'', [2]), (''of'', [1])]"
    by (simp add: load_glove_model_def split_def isspace_def sample_to_float_def)
  have a: "?lines = [''the 1 0''] @ ''of 1'' # [''the 2''] \<and> split ''of 1'' = ''of'' # [''1''] \<and>
      (\<forall>l \<in> set [''the 2'']. \<forall>ts. split l \<noteq> ''of'' # ts)"
    by (simp add: split_def isspace_def)
  from load_glove_model_no_dimension_check [OF wf, of 0] obtain store where
    s: "load_glove_model sample_to_float ?lines = Inr store"
    and l: "\<forall>pre line post word tokens.
              ?lines = pre @ line # post \<and> split line = word # tokens \<and>
              (\<forall>l \<in> set post. \<forall>ts. split l \<noteq> word # ts) \<longrightarrow>
              (\<exists>vec. np_array sample_to_float tokens = Some vec \<and> length vec = length tokens \<and>
                 map_of store word = Some vec)"
    by (elim exE conjE) (rule that)
  from s h have e: "store = [(''the'', [2]), (''of'', [1])]" by simp
  from l [rule_format, OF a] e h show ?thesis by simp
qed

text \<open>
  The statement of the specification, that a line whose vector length differs from the
  first line's is signalled and never inserted, fails on the lines \<^verbatim>\<open>the 1 0\<close> and
  \<^verbatim>\<open>of 1\<close>: the store is returned, with vectors of two and of one component.
\<close>

theorem load_glove_model_mixed_dimensions:
  "load_glove_model sample_to_float [''the 1 0'', ''of 1''] = Inr [(''the'', [1, 0]), (''of'', [1])] \<and>
   \<not> uniform_dim [(''the'', [1, 0 :: real]), (''of'', [1])]"
  by (simp add: load_glove_model_def split_def isspace_def sample_to_float_def uniform_dim_def)

text \<open>
  Claim C5. An input with a line that has a token after the word that is not a number
  gives no store: \<^verbatim>\<open>load_glove_model\<close> raises. The exception is the \<^verbatim>\<open>ValueError\<close> of
  \<^verbatim>\<open>np.array\<close> at that line, unless an earlier line has already raised; the dictionary
  built so far is lost with the call.
\<close>

theorem non_numeric_token_raises:
  assumes "token \<in> set (tl (split line))" and "to_float token = None"
  shows "load_glove_model to_float (pre @ line # post) =
           (case load_glove_model to_float pre of Inl e \<Rightarrow> Inl e | Inr glove_model \<Rightarrow> Inl ValueError)"
proof -
  from assms obtain w ts where "split line = w # ts" "np_array to_float ts = None"
    by (cases "split line") (auto simp: np_array_None_iff)
  then show ?thesis
    by (simp add: load_glove_model_def load_lines_append split: sum.splits)
qed

theorem non_numeric_token_raises_witness:
  "load_glove_model sample_to_float ([''good 1.0 2''] @ ''bad abc 1.0'' # [''more 0 0'']) = Inl ValueError"
proof -
  have t: "''abc'' \<in> set (tl (split ''bad abc 1.0''))" by (simp add: split_def isspace_def)
  have n: "sample_to_float ''abc'' = None" by (simp add: sample_to_float_def)
  have p: "load_glove_model sample_to_float [''good 1.0 2''] = Inr [(''good'', [1, 2])]"
    by (simp add: load_glove_model_def split_def isspace_def sample_to_float_def)
  from non_numeric_token_raises
         [where to_float = sample_to_float and token = "''abc''" and line = "''bad abc 1.0''"
            and pre = "[''good 1.0 2'']" and post = "[''more 0 0'']", OF t n] p
  show ?thesis by simp
qed



text \<open>
  Claim C10. A line without any token, empty or of whitespace only, makes the
  construction fail: \<^verbatim>\<open>split_line[0]\<close> raises \<^verbatim>\<open>IndexError\<close> at that line (unless an
  earlier line has already raised); the line is not skipped and nothing is inserted.
\<close>

theorem blank_line_raises:
  assumes "\<forall>c \<in> set line. isspace c"
  shows "load_glove_model to_float (pre @ line # post) =
           (case load_glove_model to_float pre of Inl e \<Rightarrow> Inl e | Inr glove_model \<Rightarrow> Inl IndexError)"
proof -
  from assms have "split line = []" by (simp add: split_Nil_iff)
  then show ?thesis
    by (simp add: load_glove_model_def load_lines_append split: sum.splits)
qed

theorem blank_line_raises_witness:
  "load_glove_model sample_to_float ([''the 1 0''] @ '' '' # [''of 0 1'']) = Inl IndexError"
proof -
  have b: "\<forall>c \<in> set '' ''. isspace c" by (simp add: isspace_def)
  have p: "load_glove_model sample_to_float [''the 1 0''] = Inr [(''the'', [1, 0])]"
    by (simp add: load_glove_model_def split_def isspace_def sample_to_float_def)
  from blank_line_raises [OF b, of sample_to_float "[''the 1 0'']" "[''of 0 1'']"] p
  show ?thesis by simp
qed

section \<open>The claims about \<^verbatim>\<open>cosine_similarity\<close>\<close>

text \<open>
  Claim C2. A query that names a word absent from the store gets \<^verbatim>\<open>None\<close>, not a score
  and not an exception: from \<^verbatim>\<open>cosine_similarity\<close> when either word is absent, and from
  \<^verbatim>\<open>find_most_similar\<close> when the query word is absent.
\<close>

theorem absent_word_not_found:
  "(\<not> present word1 gv \<or> \<not> present word2 gv \<longrightarrow> cosine_similarity word1 word2 gv = Inr None) \<and>
   (\<not> present word gv \<longrightarrow> find_most_similar word gv top_n = Inr None)"
  by (auto simp: present_map_of cosine_similarity_def find_most_similar_def split: option.splits)

theorem absent_word_not_found_witness:
  "cosine_similarity ''cat'' ''dog'' [(''cat'', [1, 0])] = Inr None \<and>
   cosine_similarity ''dog'' ''cat'' [(''cat'', [1, 0])] = Inr None \<and>
   find_most_similar ''dog'' [(''cat'', [1, 0])] 5 = Inr None"
proof -
  have a: "\<not> present ''dog'' [(''cat'', [1, 0 :: real])]" by (simp add: present_def)
  from absent_word_not_found [of "''cat''" "[(''cat'', [1, 0])]" "''dog''" "''dog''" 5]
    absent_word_not_found [of "''dog''" "[(''cat'', [1, 0])]" "''cat''" "''dog''" 5] a
  show ?thesis by blast
qed

text \<open>
  Claim C3, as the code has it. For two present words whose vectors have one
  dimensionality, when either vector has norm zero \<^verbatim>\<open>cosine_similarity\<close> performs the
  division \<open>0 / 0\<close> and returns NaN as the score, where every other score is returned;
  nothing distinct is signalled.
\<close>

theorem cosine_similarity_zero_norm:
  assumes "map_of gv word1 = Some vec1" and "map_of gv word2 = Some vec2"
    and "length vec1 = length vec2" and "norm_l2 vec1 = 0 \<or> norm_l2 vec2 = 0"
  shows "cosine_similarity word1 word2 gv = Inr (Some NaN)"
  using cosine_present [OF assms(1-3)] true_divide_zero_norm [OF assms(3,4)] by simp

theorem cosine_similarity_zero_norm_witness:
  "cosine_similarity ''king'' ''void'' [(''king'', [1, 0]), (''void'', [0, 0])] = Inr (Some NaN)"
proof -
  have 1: "map_of [(''king'', [1, 0 :: real]), (''void'', [0, 0])] ''king'' = Some [1, 0]" by simp
  have 2: "map_of [(''king'', [1, 0 :: real]), (''void'', [0, 0])] ''void'' = Some [0, 0]" by simp
  have 3: "length [1, 0 :: real] = length [0, 0 :: real]" by simp
  have 4: "norm_l2 [1, 0] = 0 \<or> norm_l2 [0, 0] = 0" by (simp add: norm_l2_def)
  from cosine_similarity_zero_norm [OF 1 2 3 4] show ?thesis .
qed

text \<open>
  The statement of the specification, that a zero norm gives a distinct outcome in place
  of the division, fails on the store with \<^verbatim>\<open>cat\<close> at [1] and \<^verbatim>\<open>void\<close> at [0]: the value
  returned is a float, NaN.
\<close>

theorem cosine_similarity_zero_vector_divides:
  "norm_l2 [0] = 0 \<and>
   cosine_similarity ''void'' ''cat'' [(''cat'', [1]), (''void'', [0])] = Inr (Some NaN)"
  by (simp add: cosine_similarity_def dot_def norm_l2_def true_divide_def)

text \<open>
  Claim C7, as the code has it. \<^verbatim>\<open>cosine_similarity\<close> has the same outcome for a pair of
  words and for the pair swapped, for every store and all words. The comparison of the
  two results with \<^verbatim>\<open>==\<close> is true when both are \<^verbatim>\<open>None\<close> or the same score other than
  NaN, and false when the score is NaN, as it is when either vector is the zero vector.
\<close>

theorem cosine_similarity_swap:
  "cosine_similarity word1 word2 gv = cosine_similarity word2 word1 gv \<and>
   swapped_equal word1 word2 gv =
     (case cosine_similarity word1 word2 gv of
        Inl e \<Rightarrow> Inl e
      | Inr None \<Rightarrow> Inr True
      | Inr (Some s) \<Rightarrow> Inr (s \<noteq> NaN)) \<and>
   (map_of gv word1 = Some vec1 \<and> map_of gv word2 = Some vec2 \<and> length vec1 = length vec2 \<and>
    (set vec1 \<subseteq> {0} \<or> set vec2 \<subseteq> {0}) \<longrightarrow> swapped_equal word1 word2 gv = Inr False)"
proof -
  have sym: "cosine_similarity word1 word2 gv = cosine_similarity word2 word1 gv"
    by (auto simp: cosine_similarity_def dot_def dot_commute mult.commute split: option.splits)
  have eq: "swapped_equal word1 word2 gv =
     (case cosine_similarity word1 word2 gv of
        Inl e \<Rightarrow> Inl e
      | Inr None \<Rightarrow> Inr True
      | Inr (Some s) \<Rightarrow> Inr (s \<noteq> NaN))"
  proof (cases "cosine_similarity word1 word2 gv")
    case (Inl e)
    then show ?thesis by (simp add: swapped_equal_def)
  next
    case (Inr x)
    with sym have "cosine_similarity word2 word1 gv = Inr x" by simp
    with Inr show ?thesis
      by (cases x) (simp_all add: swapped_equal_def float_eq_refl_iff)
  qed
  have zero: "swapped_equal word1 word2 gv = Inr False"
    if a: "map_of gv word1 = Some vec1 \<and> map_of gv word2 = Some vec2 \<and> length vec1 = length vec2 \<and>
      (set vec1 \<subseteq> {0} \<or> set vec2 \<subseteq> {0})"
  proof -
    from a have "norm_l2 vec1 = 0 \<or> norm_l2 vec2 = 0" by (auto simp: norm_l2_zero_vector)
    with a have "true_divide (sum_list (map2 (*) vec1 vec2)) (norm_l2 vec1 * norm_l2 vec2) = NaN"
      by (intro true_divide_zero_norm) auto
    with a have "cosine_similarity word1 word2 gv = Inr (Some NaN)" by (simp add: cosine_present)
    with eq show ?thesis by simp
  qed
  from sym eq zero show ?thesis by blast
qed

theorem cosine_similarity_swap_witness:
  "cosine_similarity ''cat'' ''car'' [(''cat'', [1, 0]), (''car'', [0, 1]), (''void'', [0, 0])]
     = Inr (Some (Fin 0)) \<and>
   cosine_similarity ''car'' ''cat'' [(''cat'', [1, 0]), (''car'', [0, 1]), (''void'', [0, 0])]
     = Inr (Some (Fin 0)) \<and>
   swapped_equal ''cat'' ''car'' [(''cat'', [1, 0]), (''car'', [0, 1]), (''void'', [0, 0])] = Inr True \<and>
   swapped_equal ''cat'' ''void'' [(''cat'', [1, 0]), (''car'', [0, 1]), (''void'', [0, 0])] = Inr False"
proof -
  let ?gv = "[(''cat'', [1, 0 :: real]), (''car'', [0, 1]), (''void'', [0, 0])]"
  have c: "cosine_similarity ''cat'' ''car'' ?gv = Inr (Some (Fin 0))"
    by (simp add: cosine_similarity_def dot_def norm_l2_def true_divide_def)
  have z: "map_of ?gv ''cat'' = Some [1, 0] \<and> map_of ?gv ''void'' = Some [0, 0] \<and>
      length [1, 0 :: real] = length [0, 0 :: real] \<and>
      (set [1, 0 :: real] \<subseteq> {0} \<or> set [0, 0 :: real] \<subseteq> {0})"
    by simp
  from cosine_similarity_swap [of "''cat''" "''car''" ?gv "[]" "[]"] c
  have 1: "cosine_similarity ''car'' ''cat'' ?gv = Inr (Some (Fin 0))"
    and 2: "swapped_equal ''cat'' ''car'' ?gv = Inr True" by simp_all
  from cosine_similarity_swap [of "''cat''" "''void''" ?gv "[1, 0]" "[0, 0]"] z
  have 3: "swapped_equal ''cat'' ''void'' ?gv = Inr False" by blast
  from c 1 2 3 show ?thesis by simp
qed

text \<open>
  The statement of the specification, that the two results are equal for every pair of
  present words, fails on the store with \<^verbatim>\<open>cat\<close> at [1] and \<^verbatim>\<open>void\<close> at [0]: both calls
  return NaN, and \<^verbatim>\<open>==\<close> of the two is false.
\<close>

theorem cosine_similarity_swap_nan_unequal:
  "cosine_similarity ''cat'' ''void'' [(''cat'', [1]), (''void'', [0])] = Inr (Some NaN) \<and>
   cosine_similarity ''void'' ''cat'' [(''cat'', [1]), (''void'', [0])] = Inr (Some NaN) \<and>
   swapped_equal ''cat'' ''void'' [(''cat'', [1]), (''void'', [0])] = Inr False"
  by (simp add: swapped_equal_def cosine_similarity_def dot_def norm_l2_def true_divide_def)




section \<open>The claims about \<^verbatim>\<open>find_most_similar\<close>\<close>

text \<open>
  Claim C9, as the code has it. For a word present in a store whose vectors have one
  dimensionality, \<^verbatim>\<open>find_most_similar\<close> with \<^verbatim>\<open>top_n = 0\<close> returns the empty list: not
  \<^verbatim>\<open>None\<close> and not an exception. On a store with vectors of different dimensionalities
  the call raises the \<^verbatim>\<open>ValueError\<close> of \<^verbatim>\<open>numpy.dot\<close>.
\<close>

theorem find_most_similar_top_0:
  assumes "present word gv"
  shows "(uniform_dim gv \<longrightarrow> find_most_similar word gv 0 = Inr (Some [])) \<and>
         (distinct (map fst gv) \<and> \<not> uniform_dim gv \<longrightarrow> find_most_similar word gv 0 = Inl ValueError)"
proof (intro conjI impI)
  assume "uniform_dim gv"
  from find_most_similar_returns [OF assms this, of 0]
  show "find_most_similar word gv 0 = Inr (Some [])" by (auto simp: slice_to_def)
next
  assume "distinct (map fst gv) \<and> \<not> uniform_dim gv"
  then show "find_most_similar word gv 0 = Inl ValueError"
    using assms by (simp add: mixed_store_raises)
qed

theorem find_most_similar_top_0_witness:
  "find_most_similar ''cat'' [(''cat'', [1, 0]), (''dog'', [1, 0]), (''car'', [0, 1])] 0 = Inr (Some []) \<and>
   find_most_similar ''cat'' [(''cat'', [1, 0]), (''dog'', [1])] 0 = Inl ValueError"
proof -
  have p: "present ''cat'' [(''cat'', [1, 0 :: real]), (''dog'', [1, 0]), (''car'', [0, 1])]"
    by (simp add: present_def)
  have u: "uniform_dim [(''cat'', [1, 0 :: real]), (''dog'', [1, 0]), (''car'', [0, 1])]"
    by (simp add: uniform_dim_def)
  have p': "present ''cat'' [(''cat'', [1, 0 :: real]), (''dog'', [1])]"
    by (simp add: present_def)
  have m: "distinct (map fst [(''cat'', [1, 0 :: real]), (''dog'', [1])]) \<and>
      \<not> uniform_dim [(''cat'', [1, 0 :: real]), (''dog'', [1])]"
    by (simp add: uniform_dim_def)
  from find_most_similar_top_0 [OF p] u find_most_similar_top_0 [OF p'] m
  show ?thesis by blast
qed

text \<open>
  The statement for every store fails on the store that \<^verbatim>\<open>load_glove_model\<close> returns for
  the lines \<^verbatim>\<open>the 1 0\<close> and \<^verbatim>\<open>of 1\<close>: the loop raises before the slice is taken.
\<close>

theorem find_most_similar_top_0_mixed_store:
  "load_glove_model sample_to_float [''the 1 0'', ''of 1''] = Inr [(''the'', [1, 0]), (''of'', [1])] \<and>
   find_most_similar ''the'' [(''the'', [1, 0]), (''of'', [1])] 0 = Inl ValueError"
  by (simp add: load_glove_model_def split_def isspace_def sample_to_float_def
      find_most_similar_def cosine_similarity_def dot_def)

text \<open>
  Claim C1, as the code has it. For a word present in a store whose vectors have one
  dimensionality and a positive \<^verbatim>\<open>top_n\<close>, \<^verbatim>\<open>find_most_similar\<close> returns the first
  \<^verbatim>\<open>top_n\<close> items of a list of all candidates: the words of that list are the words of the
  store other than the query word, each once, and each score is the value of
  \<^verbatim>\<open>cosine_similarity\<close> for the query word and its word. So the result has exactly
  \<open>min top_n (vocabulary size - 1)\<close> pairs, never holds the query word, and is the list of
  all candidates when \<^verbatim>\<open>top_n\<close> is not less than their number. The list of all candidates,
  and with it the result, is sorted by non-increasing score when no candidate's score is
  NaN. On a store with vectors of different dimensionalities the call raises
  \<^verbatim>\<open>ValueError\<close>.
\<close>

theorem find_most_similar_ranked:
  assumes "distinct (map fst gv)" and "present word gv" and "0 < top_n"
  shows "(uniform_dim gv \<longrightarrow>
           (\<exists>ranked most.
              find_most_similar word gv top_n = Inr (Some ranked) \<and>
              ranked = take (nat top_n) most \<and>
              length ranked = min (nat top_n) (length gv - 1) \<and>
              word \<notin> fst ` set ranked \<and>
              distinct (map fst most) \<and>
              set (map fst most) = fst ` set gv - {word} \<and>
              (\<forall>p \<in> set most. snd p \<noteq> None \<and> cosine_similarity word (fst p) gv = Inr (snd p)) \<and>
              (length gv - 1 \<le> nat top_n \<longrightarrow> ranked = most) \<and>
              ((\<forall>p \<in> set most. snd p \<noteq> Some NaN) \<longrightarrow> non_increasing most \<and> non_increasing ranked))) \<and>
         (\<not> uniform_dim gv \<longrightarrow> find_most_similar word gv top_n = Inl ValueError)"
proof (intro conjI impI)
  assume u: "uniform_dim gv"
  from find_most_similar_returns [OF assms(2) u, of top_n]
  obtain sims most where sims: "similarity_loop word gv gv [] = Inr sims"
    and most: "sorted_reverse sims = Inr most"
    and res: "find_most_similar word gv top_n = Inr (Some (slice_to top_n most))"
    and some: "\<forall>p \<in> set sims. snd p \<noteq> None"
    by auto
  let ?ranked = "take (nat top_n) most"
  from assms(3) res have r: "find_most_similar word gv top_n = Inr (Some ?ranked)"
    by (simp add: slice_to_def)
  from similarity_loop_keys [OF sims assms(1)]
  have keys: "map fst sims = filter (\<lambda>k. k \<noteq> word) (map fst gv)" by simp
  from assms(1) keys have dsims: "distinct (map fst sims)" by simp
  from sorted_reverse_keys [OF most dsims] keys
  have dmost: "distinct (map fst most)" and kmost: "set (map fst most) = fst ` set gv - {word}"
    by auto
  from sorted_reverse_result [OF most] have smost: "set most = set sims"
    and lmost: "length most = length sims" by simp_all
  from assms(2) have "word \<in> set (map fst gv)" by (simp add: present_def)
  from count_others [OF assms(1) this] keys have "length (map fst sims) = length gv - 1" by simp
  with lmost have lm: "length most = length gv - 1" by simp
  then have len: "length ?ranked = min (nat top_n) (length gv - 1)" by simp
  have "fst ` set ?ranked \<subseteq> set (map fst most)" by (auto dest: in_set_takeD)
  with kmost have excl: "word \<notin> fst ` set ?ranked" by auto
  have orig: "\<forall>p \<in> set most. snd p \<noteq> None \<and> cosine_similarity word (fst p) gv = Inr (snd p)"
  proof
    fix p assume "p \<in> set most"
    with smost have p: "p \<in> set sims" by simp
    then have "(fst p, snd p) \<in> set sims" by simp
    from similarity_loop_origin [OF sims this] some p
    show "snd p \<noteq> None \<and> cosine_similarity word (fst p) gv = Inr (snd p)" by simp
  qed
  from lm have all: "length gv - 1 \<le> nat top_n \<longrightarrow> ?ranked = most" by simp
  have srt: "non_increasing most \<and> non_increasing ?ranked" if nn: "\<forall>p \<in> set most. snd p \<noteq> Some NaN"
  proof -
    have "no_nan sims"
      unfolding no_nan_def
    proof
      fix p assume p: "p \<in> set sims"
      with some obtain x where x: "snd p = Some x" by auto
      from p smost nn have "snd p \<noteq> Some NaN" by simp
      with x show "\<exists>x. snd p = Some x \<and> x \<noteq> NaN" by simp
    qed
    from sorted_reverse_sorted [OF most this] have "non_increasing most" .
    then show ?thesis by (simp add: non_increasing_take)
  qed
  from r len excl dmost kmost orig all srt
  show "\<exists>ranked most.
          find_most_similar word gv top_n = Inr (Some ranked) \<and>
          ranked = take (nat top_n) most \<and>
          length ranked = min (nat top_n) (length gv - 1) \<and>
          word \<notin> fst ` set ranked \<and>
          distinct (map fst most) \<and>
          set (map fst most) = fst ` set gv - {word} \<and>
          (\<forall>p \<in> set most. snd p \<noteq> None \<and> cosine_similarity word (fst p) gv = Inr (snd p)) \<and>
          (length gv - 1 \<le> nat top_n \<longrightarrow> ranked = most) \<and>
          ((\<forall>p \<in> set most. snd p \<noteq> Some NaN) \<longrightarrow> non_increasing most \<and> non_increasing ranked)"
    by blast
next
  assume "\<not> uniform_dim gv"
  with assms(1,2) show "find_most_similar word gv top_n = Inl ValueError"
    by (rule mixed_store_raises)
qed

theorem find_most_similar_ranked_witness:
  "find_most_similar ''cat'' [(''cat'', [1, 0]), (''car'', [0, 1]), (''dog'', [1, 0])] 5
     = Inr (Some [(''dog'', Some (Fin 1)), (''car'', Some (Fin 0))]) \<and>
   length [(''dog'', Some (Fin 1)), (''car'', Some (Fin 0))] = 2 \<and>
   ''cat'' \<notin> fst ` set [(''dog'', Some (Fin 1)), (''car'', Some (Fin 0))] \<and>
   set (map fst [(''dog'', Some (Fin 1)), (''car'', Some (Fin 0))]) = {''car'', ''dog''} \<and>
   cosine_similarity ''cat'' ''dog'' [(''cat'', [1, 0]), (''car'', [0, 1]), (''dog'', [1, 0])]
     = Inr (Some (Fin 1)) \<and>
   non_increasing [(''dog'', Some (Fin 1)), (''car'', Some (Fin 0))] \<and>
   find_most_similar ''cat'' [(''cat'', [1, 0]), (''dog'', [1])] 5 = Inl ValueError"
proof -
  let ?gv = "[(''cat'', [1, 0 :: real]), (''car'', [0, 1]), (''dog'', [1, 0])]"
  let ?res = "[(''dog'', Some (Fin 1)), (''car'', Some (Fin 0))]"
  let ?mixed = "[(''cat'', [1, 0 :: real]), (''dog'', [1])]"
  have d: "distinct (map fst ?gv)" by simp
  have p: "present ''cat'' ?gv" by (simp add: present_def)
  have u: "uniform_dim ?gv" by (simp add: uniform_dim_def)
  have n: "(0::int) < 5" by simp
  have d': "distinct (map fst ?mixed)" by simp
  have p': "present ''cat'' ?mixed" by (simp add: present_def)
  have u': "\<not> uniform_dim ?mixed" by (simp add: uniform_dim_def)
  have f: "find_most_similar ''cat'' ?gv 5 = Inr (Some ?res)"
    by (simp add: find_most_similar_def cosine_similarity_def dot_def norm_l2_def true_divide_def
        slice_to_def)
  note t = find_most_similar_ranked [OF d p n, THEN conjunct1, THEN mp, OF u]
  from t obtain ranked most where
    r: "find_most_similar ''cat'' ?gv 5 = Inr (Some ranked)"
      "ranked = take (nat 5) most"
      "length ranked = min (nat 5) (length ?gv - 1)"
      "''cat'' \<notin> fst ` set ranked"
      "distinct (map fst most)"
      "set (map fst most) = fst ` set ?gv - {''cat''}"
      "\<forall>p \<in> set most. snd p \<noteq> None \<and> cosine_similarity ''cat'' (fst p) ?gv = Inr (snd p)"
      "length ?gv - 1 \<le> nat 5 \<longrightarrow> ranked = most"
      "(\<forall>p \<in> set most. snd p \<noteq> Some NaN) \<longrightarrow> non_increasing most \<and> non_increasing ranked"
    by (elim exE conjE) (rule that)
  from r(1) f have eq: "ranked = ?res" by simp
  from r(8) eq have m: "most = ?res" by simp
  from r(9) m eq have s: "non_increasing ?res" by simp
  from r(7) m have c: "cosine_similarity ''cat'' ''dog'' ?gv = Inr (Some (Fin 1))" by simp
  from r(6) m have k: "set (map fst ?res) = {''car'', ''dog''}" by auto
  note x = find_most_similar_ranked [OF d' p' n, THEN conjunct2, THEN mp, OF u']
  from f r(3,4) eq s c k x show ?thesis by simp
qed

text \<open>
  The statement of the specification for every store fails in two ways. On the store
  with \<^verbatim>\<open>cat\<close> at [1], \<^verbatim>\<open>void\<close> at [0] and \<^verbatim>\<open>dog\<close> at [1] the score of \<^verbatim>\<open>void\<close> is NaN,
  and a list that holds NaN and another score is sorted in neither order. On the store
  with \<^verbatim>\<open>the\<close> at [1, 0] and \<^verbatim>\<open>of\<close> at [1] the call raises \<^verbatim>\<open>ValueError\<close>.
\<close>

theorem find_most_similar_nan_unsorted:
  "find_most_similar ''cat'' [(''cat'', [1]), (''void'', [0]), (''dog'', [1])] 5
     = Inr (Some [(''void'', Some NaN), (''dog'', Some (Fin 1))]) \<and>
   \<not> non_increasing [(''void'', Some NaN), (''dog'', Some (Fin 1))] \<and>
   \<not> non_increasing [(''dog'', Some (Fin 1)), (''void'', Some NaN)] \<and>
   find_most_similar ''the'' [(''the'', [1, 0]), (''of'', [1])] 5 = Inl ValueError"
  by (simp add: find_most_similar_def cosine_similarity_def dot_def norm_l2_def true_divide_def
      slice_to_def non_increasing_def)

end
